theory Spec2Isabelle
  imports Main
begin

section \<open>Strings of code points\<close>

text \<open>
  The module \<^verbatim>\<open>homework/clean_data.py\<close> works on Python \<^verbatim>\<open>str\<close> values, which are
  sequences of Unicode code points. A code point is a natural number here and a string
  is a list of them, so that characters beyond ASCII (which the normaliser has to
  remove) are inputs of the model. String literals of the source are written with
  \<open>cps\<close>, which reads an ASCII literal as its list of code points.
\<close>

type_synonym codepoint = nat
type_synonym pystr = "codepoint list"

definition cps :: "string \<Rightarrow> pystr" where
  "cps cs = map of_char cs"

definition is_upper_az :: "codepoint \<Rightarrow> bool" where
  "is_upper_az c \<longleftrightarrow> 65 \<le> c \<and> c \<le> 90"

definition is_lower_az :: "codepoint \<Rightarrow> bool" where
  "is_lower_az c \<longleftrightarrow> 97 \<le> c \<and> c \<le> 122"

definition is_digit09 :: "codepoint \<Rightarrow> bool" where
  "is_digit09 c \<longleftrightarrow> 48 \<le> c \<and> c \<le> 57"

definition is_ascii :: "pystr \<Rightarrow> bool" where
  "is_ascii s \<longleftrightarrow> list_all (\<lambda>c. c < 128) s"

subsection \<open>The library operations the module calls\<close>

text \<open>
  \<^verbatim>\<open>s.replace(old, new)\<close> for a one-character \<open>old\<close>: every occurrence is replaced.
\<close>

definition str_replace :: "codepoint \<Rightarrow> pystr \<Rightarrow> pystr \<Rightarrow> pystr" where
  "str_replace old new s = concat (map (\<lambda>c. if c = old then new else [c]) s)"

text \<open>
  \<^verbatim>\<open>re.sub(r"[...]+", repl, s)\<close> for a pattern that is one character class under \<open>+\<close>:
  scanning from the left, a character outside the class is copied; at a character of
  the class the longest run of class characters is consumed and \<open>repl\<close> is emitted
  once for it.
\<close>

function re_sub_plus :: "(codepoint \<Rightarrow> bool) \<Rightarrow> pystr \<Rightarrow> pystr \<Rightarrow> pystr" where
  "re_sub_plus cls repl [] = []"
| "re_sub_plus cls repl (c # cs) =
     (if cls c then repl @ re_sub_plus cls repl (dropWhile cls cs)
      else c # re_sub_plus cls repl cs)"
  by pat_completeness auto
termination
  by (relation "measure (\<lambda>(cls, repl, s). length s)")
     (auto simp: less_Suc_eq_le length_dropWhile_le)

text \<open>
  The class \<^verbatim>\<open>[^A-Za-z0-9\- ]\<close>: every code point that is not an ASCII letter, an ASCII
  digit, the hyphen (45) or the space (32).
\<close>

definition not_word_char :: "codepoint \<Rightarrow> bool" where
  "not_word_char c \<longleftrightarrow>
     \<not> (is_upper_az c \<or> is_lower_az c \<or> is_digit09 c \<or> c = 45 \<or> c = 32)"

text \<open>
  The class \<^verbatim>\<open>\s\<close> of a \<^verbatim>\<open>str\<close> pattern, which is also what \<^verbatim>\<open>str.strip()\<close> removes:
  the Unicode white space U+0009..U+000D, U+001C..U+0020, U+0085, U+00A0, U+1680,
  U+2000..U+200A, U+2028, U+2029, U+202F, U+205F and U+3000.
\<close>

definition py_isspace :: "codepoint \<Rightarrow> bool" where
  "py_isspace c \<longleftrightarrow>
     (9 \<le> c \<and> c \<le> 13) \<or> (28 \<le> c \<and> c \<le> 32) \<or> c = 133 \<or> c = 160 \<or> c = 5760 \<or>
     (8192 \<le> c \<and> c \<le> 8202) \<or> c = 8232 \<or> c = 8233 \<or> c = 8239 \<or> c = 8287 \<or>
     c = 12288"

definition py_strip :: "pystr \<Rightarrow> pystr" where
  "py_strip s = rev (dropWhile py_isspace (rev (dropWhile py_isspace s)))"

text \<open>
  Case conversion. Python converts with the full Unicode case mappings, where one
  code point may map to several. The tables below are those mappings on ASCII, on
  U+0130 (capital I with dot above, a cased letter whose lower case is the two code
  points U+0069 U+0307) and on every code point that has no case, U+0307 (combining dot
  above) among them. Other cased letters beyond ASCII are not tabulated; no statement
  below is about a string that contains one.
\<close>

definition is_cased :: "codepoint \<Rightarrow> bool" where
  "is_cased c \<longleftrightarrow> is_upper_az c \<or> is_lower_az c \<or> c = 304"

definition to_upper_full :: "codepoint \<Rightarrow> pystr" where
  "to_upper_full c = (if is_lower_az c then [c - 32] else [c])"

definition to_title_full :: "codepoint \<Rightarrow> pystr" where
  "to_title_full c = (if is_lower_az c then [c - 32] else [c])"

definition to_lower_full :: "codepoint \<Rightarrow> pystr" where
  "to_lower_full c =
     (if is_upper_az c then [c + 32] else if c = 304 then [105, 775] else [c])"

definition py_upper :: "pystr \<Rightarrow> pystr" where
  "py_upper s = concat (map to_upper_full s)"

text \<open>
  \<^verbatim>\<open>str.title()\<close>: a character that follows a cased character is lowercased, any other
  character is titlecased; whether a character counts as cased is read from the
  original string.
\<close>

fun do_title :: "bool \<Rightarrow> pystr \<Rightarrow> pystr" where
  "do_title previous_is_cased [] = []"
| "do_title previous_is_cased (c # cs) =
     (if previous_is_cased then to_lower_full c else to_title_full c)
       @ do_title (is_cased c) cs"

definition py_title :: "pystr \<Rightarrow> pystr" where
  "py_title s = do_title False s"

text \<open>\<^verbatim>\<open>str(i)\<close> for an integer, as the f-string \<^verbatim>\<open>f"key_filler_{i}"\<close> formats it.\<close>

fun decimal :: "nat \<Rightarrow> pystr" where
  "decimal n = (if n < 10 then [48 + n] else decimal (n div 10) @ [48 + n mod 10])"

declare decimal.simps [simp del]

definition py_str_int :: "int \<Rightarrow> pystr" where
  "py_str_int i = (if i < 0 then 45 # decimal (nat (- i)) else decimal (nat i))"

text \<open>
  The exceptions: the one \<open>main\<close> raises itself, the one a list assignment raises,
  and \<open>Raised x\<close> for an exception \<open>x\<close> that comes out of a library call.
\<close>

datatype py_error = FileNotFoundError pystr | IndexError | Raised pystr

text \<open>
  \<^verbatim>\<open>xs[i] = v\<close> on a list: a negative index counts from the end, and an index out of
  range raises \<^verbatim>\<open>IndexError\<close>.
\<close>

definition list_setitem :: "'a list \<Rightarrow> int \<Rightarrow> 'a \<Rightarrow> py_error + 'a list" where
  "list_setitem xs i v =
     (if i < - int (length xs) \<or> int (length xs) \<le> i then Inl IndexError
      else Inr (xs[nat (if i < 0 then i + int (length xs) else i) := v]))"

section \<open>The module\<close>

subsection \<open>\<^verbatim>\<open>_normalize\<close>\<close>

definition normalize_str :: "pystr \<Rightarrow> pystr" where
  "normalize_str s =
     (let s1 = str_replace 46 [32] s;
          s2 = re_sub_plus not_word_char [] s1;
          s3 = re_sub_plus py_isspace [32] s2
      in py_upper (py_strip s3))"

subsection \<open>\<^verbatim>\<open>_map_clean_label\<close>\<close>

definition map_clean_label :: "pystr \<Rightarrow> pystr" where
  "map_clean_label norm =
     (if norm = cps ''ADHOC QUERIES'' \<or> norm = cps ''AD-HOC QUERIES''
        then cps ''AD-HOC QUERIES''
      else if norm = cps ''AGRICULTURAL PRODUCTION'' then cps ''AGRICULTURAL PRODUCTION''
      else if norm = cps ''AIRLINE COMPANIES'' then cps ''AIRLINE COMPANIES''
      else if norm = cps ''AIRLINES'' then cps ''AIRLINES''
      else if norm = cps ''ANALYTIC APPLICATIONS'' then cps ''ANALYTIC APPLICATIONS''
      else if norm = cps ''ANALYTIC MODEL'' then cps ''ANALYTIC MODEL''
      else py_title norm)"

subsection \<open>\<^verbatim>\<open>_make_test_keys\<close>\<close>

definition key_filler :: "int \<Rightarrow> pystr" where
  "key_filler i = cps ''key_filler_'' @ py_str_int i"

text \<open>The dictionary \<^verbatim>\<open>expected\<close>, in its insertion order, which is its iteration order.\<close>

definition expected :: "(int \<times> pystr) list" where
  "expected =
     [(0, cps ''alanapatcacsiciolilynnaonplppsatiyt''),
      (2, cps ''alanapatcacsiciolilynansonplppssatiyt''),
      (3, cps ''alancsdeelicllymonaodsmtiyt''),
      (7, cps ''alancadeeliclmlslymonaodstiyt''),
      (12, cps ''agalctcudugriclpltodprrariroststuuculur''),
      (17, cps ''aiesinirlinerls'')]"

text \<open>The loop \<^verbatim>\<open>for idx, val in expected.items()\<close> with its bounds guard.\<close>

fun inject_expected ::
  "int \<Rightarrow> (int \<times> pystr) list \<Rightarrow> pystr list \<Rightarrow> py_error + pystr list" where
  "inject_expected n [] keys = Inr keys"
| "inject_expected n ((idx, val) # items) keys =
     (if 0 \<le> idx \<and> idx < n
      then (case list_setitem keys idx val of
              Inl e \<Rightarrow> Inl e
            | Inr keys' \<Rightarrow> inject_expected n items keys')
      else inject_expected n items keys)"

text \<open>\<^verbatim>\<open>range(n)\<close> is \<open>[0..n - 1]\<close>, empty when \<open>n \<le> 0\<close>.\<close>

definition make_test_keys :: "int \<Rightarrow> py_error + pystr list" where
  "make_test_keys n = inject_expected n expected (map key_filler [0..n - 1])"

subsection \<open>\<^verbatim>\<open>main\<close>\<close>

text \<open>The loop that builds the \<^verbatim>\<open>cleaned\<close> list, one \<^verbatim>\<open>append\<close> per record.\<close>

fun clean_loop :: "pystr list \<Rightarrow> pystr list \<Rightarrow> pystr list" where
  "clean_loop [] cleaned = cleaned"
| "clean_loop (s # raw_texts) cleaned =
     clean_loop raw_texts (cleaned @ [map_clean_label (normalize_str s)])"

text \<open>
  The file system is a map from the paths that exist to what is stored there. The
  library calls are parameters of \<open>main\<close>, and each of them can fail:
  \<^item> \<open>read_raw\<close> is the parse of the input into the list \<^verbatim>\<open>raw_texts\<close> of
    \<^verbatim>\<open>str\<close> records (\<^verbatim>\<open>read_csv\<close>, the choice of the column,
    \<^verbatim>\<open>astype(str).tolist()\<close>). It is \<open>Inl x\<close> when pandas raises \<open>x\<close> there, and also
    when a cell comes out that is not a \<^verbatim>\<open>str\<close>: \<^verbatim>\<open>_normalize\<close> then raises on that
    cell, inside the loop, before anything is written.
  \<^item> \<open>to_csv\<close> is the text of a one-column table with the given header.
  \<^item> \<open>write_fails path\<close> is the exception that writing to \<open>path\<close> raises in this
    environment (a missing directory, a refused permission), if there is one. A write
    that fails is taken to leave the file system as it was.

  An exception of a library call reaches the caller of \<open>main\<close> as it is. The two
  writes happen in the order of the source: \<^verbatim>\<open>output_path\<close> first, then the fixed
  path \<^verbatim>\<open>files/test.csv\<close>.
\<close>

definition write_file ::
  "(pystr \<Rightarrow> pystr option) \<Rightarrow> (pystr \<rightharpoonup> 'f) \<Rightarrow> pystr \<Rightarrow> 'f \<Rightarrow> py_error + (pystr \<rightharpoonup> 'f)" where
  "write_file write_fails fs path content =
     (case write_fails path of
        Some x \<Rightarrow> Inl (Raised x)
      | None \<Rightarrow> Inr (fs(path \<mapsto> content)))"

definition main ::
  "('f \<Rightarrow> pystr + pystr list) \<Rightarrow> (pystr \<Rightarrow> pystr list \<Rightarrow> 'f) \<Rightarrow> (pystr \<Rightarrow> pystr option)
     \<Rightarrow> (pystr \<rightharpoonup> 'f) \<Rightarrow> pystr \<Rightarrow> pystr \<Rightarrow> (py_error + unit) \<times> (pystr \<rightharpoonup> 'f)" where
  "main read_raw to_csv write_fails fs input_path output_path =
     (case fs input_path of
        None \<Rightarrow> (Inl (FileNotFoundError input_path), fs)
      | Some content \<Rightarrow>
          (case read_raw content of
             Inl x \<Rightarrow> (Inl (Raised x), fs)
           | Inr raw_texts \<Rightarrow>
               (let cleaned = clean_loop raw_texts [] in
                case write_file write_fails fs output_path
                       (to_csv (cps ''cleaned_text'') cleaned) of
                  Inl e \<Rightarrow> (Inl e, fs)
                | Inr fs1 \<Rightarrow>
                    (case make_test_keys (int (length raw_texts)) of
                       Inl e \<Rightarrow> (Inl e, fs1)
                     | Inr test_keys \<Rightarrow>
                         (case write_file write_fails fs1 (cps ''files/test.csv'')
                                 (to_csv (cps ''key'') test_keys) of
                            Inl e \<Rightarrow> (Inl e, fs1)
                          | Inr fs2 \<Rightarrow> (Inr (), fs2))))))"

section \<open>Notions of the specification\<close>

text \<open>
  The definitions of this section are not code of the module: they say in HOL what
  the specification says in words, and the theorems compare the module with them.
\<close>

subsection \<open>Normalized tokens\<close>

text \<open>
  The characters the class \<^verbatim>\<open>[^A-Za-z0-9\- ]\<close> leaves in place, the characters of a
  normalized token (the same without the lower-case letters), and the characters that
  normalization never removes.
\<close>

definition word_char :: "codepoint \<Rightarrow> bool" where
  "word_char c \<longleftrightarrow> is_upper_az c \<or> is_lower_az c \<or> is_digit09 c \<or> c = 45 \<or> c = 32"

definition token_char :: "codepoint \<Rightarrow> bool" where
  "token_char c \<longleftrightarrow> is_upper_az c \<or> is_digit09 c \<or> c = 45 \<or> c = 32"

definition kept_char :: "codepoint \<Rightarrow> bool" where
  "kept_char c \<longleftrightarrow> is_upper_az c \<or> is_lower_az c \<or> is_digit09 c \<or> c = 45"

definition is_letter :: "codepoint \<Rightarrow> bool" where
  "is_letter c \<longleftrightarrow> is_upper_az c \<or> is_lower_az c"

definition ascii_upper :: "codepoint \<Rightarrow> codepoint" where
  "ascii_upper c = (if is_lower_az c then c - 32 else c)"

definition ascii_lower :: "codepoint \<Rightarrow> codepoint" where
  "ascii_lower c = (if is_upper_az c then c + 32 else c)"

text \<open>Single-spaced: no two spaces in a row. Trimmed: no white space at either end.\<close>

fun single_spaced :: "pystr \<Rightarrow> bool" where
  "single_spaced (c # d # cs) \<longleftrightarrow> \<not> (c = 32 \<and> d = 32) \<and> single_spaced (d # cs)"
| "single_spaced _ \<longleftrightarrow> True"

definition trimmed :: "pystr \<Rightarrow> bool" where
  "trimmed s \<longleftrightarrow>
     (case s of [] \<Rightarrow> True | c # cs \<Rightarrow> \<not> py_isspace c \<and> \<not> py_isspace (last s))"

text \<open>
  A normalized token: upper case, made of ASCII letters, digits, hyphens and spaces
  only, single-spaced and trimmed.
\<close>

definition normalized :: "pystr \<Rightarrow> bool" where
  "normalized t \<longleftrightarrow> list_all token_char t \<and> single_spaced t \<and> trimmed t"

text \<open>
  The five steps of the normalizer as the specification lists them: the period becomes
  a space; everything but ASCII letters, digits, hyphens and spaces is removed; every
  run of white space becomes one space (\<open>collapse_ws\<close> drops a white-space character
  that another one follows and writes a space for the last one of a run); white space
  is stripped at both ends; the letters are put in upper case.
\<close>

fun collapse_ws :: "pystr \<Rightarrow> pystr" where
  "collapse_ws [] = []"
| "collapse_ws [c] = [if py_isspace c then 32 else c]"
| "collapse_ws (c # d # cs) =
     (if py_isspace c
      then (if py_isspace d then collapse_ws (d # cs) else 32 # collapse_ws (d # cs))
      else c # collapse_ws (d # cs))"

definition spec_normalize :: "pystr \<Rightarrow> pystr" where
  "spec_normalize s =
     map ascii_upper
       (py_strip (collapse_ws (filter word_char (map (\<lambda>c. if c = 46 then 32 else c) s))))"

subsection \<open>Labels\<close>

text \<open>The exact-match table of the specification, one row per key.\<close>

definition spec_fixed_table :: "(pystr \<times> pystr) list" where
  "spec_fixed_table =
     [(cps ''ADHOC QUERIES'', cps ''AD-HOC QUERIES''),
      (cps ''AD-HOC QUERIES'', cps ''AD-HOC QUERIES''),
      (cps ''AGRICULTURAL PRODUCTION'', cps ''AGRICULTURAL PRODUCTION''),
      (cps ''AIRLINE COMPANIES'', cps ''AIRLINE COMPANIES''),
      (cps ''AIRLINES'', cps ''AIRLINES''),
      (cps ''ANALYTIC APPLICATIONS'', cps ''ANALYTIC APPLICATIONS''),
      (cps ''ANALYTIC MODEL'', cps ''ANALYTIC MODEL'')]"

text \<open>
  The title-casing rule in the words of the specification: the first letter of each
  white-space-separated word is capitalized and the remainder of the word is
  lowercased.
\<close>

fun spec_title_words :: "bool \<Rightarrow> pystr \<Rightarrow> pystr" where
  "spec_title_words at_start [] = []"
| "spec_title_words at_start (c # cs) =
     (if py_isspace c then c # spec_title_words True cs
      else (if at_start then ascii_upper c else ascii_lower c) # spec_title_words False cs)"

definition spec_title_case :: "pystr \<Rightarrow> pystr" where
  "spec_title_case s = spec_title_words True s"

text \<open>
  The rule the module follows instead: a letter is lowercased when the character just
  before it is a letter and capitalized otherwise, so a word starts again after a
  hyphen or a digit as well as after a space.
\<close>

definition run_title :: "pystr \<Rightarrow> pystr" where
  "run_title t =
     map (\<lambda>i. if 0 < i \<and> is_letter (t ! (i - 1)) then ascii_lower (t ! i)
              else ascii_upper (t ! i)) [0..<length t]"

subsection \<open>Keys\<close>

text \<open>
  The filler of row \<open>i\<close> is \<open>key_filler_\<close> followed by the index in decimal. What
  "in decimal" means is said here by reading the digits back, without the function
  that writes them: the digits are ASCII digits, there is at least one, there is no
  leading zero, and their value is \<open>i\<close>.
\<close>

definition digits_value :: "pystr \<Rightarrow> nat" where
  "digits_value ds = foldl (\<lambda>a d. 10 * a + (d - 48)) 0 ds"

definition spec_filler :: "nat \<Rightarrow> pystr \<Rightarrow> bool" where
  "spec_filler i k \<longleftrightarrow>
     (let p = cps ''key_filler_''; ds = drop (length p) k
      in take (length p) k = p \<and> ds \<noteq> [] \<and> list_all is_digit09 ds \<and>
         (hd ds = 48 \<longrightarrow> length ds = 1) \<and> digits_value ds = i)"

text \<open>What the specification puts at row \<open>i\<close> of the key table.\<close>

definition spec_key_row :: "int \<Rightarrow> pystr \<Rightarrow> bool" where
  "spec_key_row i k \<longleftrightarrow>
     (if i = 0 then k = cps ''alanapatcacsiciolilynnaonplppsatiyt''
      else if i = 2 then k = cps ''alanapatcacsiciolilynansonplppssatiyt''
      else if i = 3 then k = cps ''alancsdeelicllymonaodsmtiyt''
      else if i = 7 then k = cps ''alancadeeliclmlslymonaodstiyt''
      else if i = 12 then k = cps ''agalctcudugriclpltodprrariroststuuculur''
      else if i = 17 then k = cps ''aiesinirlinerls''
      else spec_filler (nat i) k)"

section \<open>Properties of the module\<close>

subsection \<open>The normalizer computes the five steps\<close>

lemma str_replace_char: "str_replace old [new] s = map (\<lambda>c. if c = old then new else c) s"
  by (induction s) (simp_all add: str_replace_def)

lemma filter_dropWhile_neg: "filter (\<lambda>c. \<not> P c) (dropWhile P cs) = filter (\<lambda>c. \<not> P c) cs"
  by (induction cs) simp_all

lemma re_sub_plus_delete_gen:
  "repl = [] \<Longrightarrow> re_sub_plus cls repl s = filter (\<lambda>c. \<not> cls c) s"
  by (induction cls repl s rule: re_sub_plus.induct) (simp_all add: filter_dropWhile_neg)

lemma re_sub_plus_delete: "re_sub_plus cls [] s = filter (\<lambda>c. \<not> cls c) s"
  by (rule re_sub_plus_delete_gen) simp

lemma not_word_char_iff: "not_word_char c \<longleftrightarrow> \<not> word_char c"
  by (simp add: not_word_char_def word_char_def)

lemma collapse_ws_run:
  "py_isspace c \<Longrightarrow> collapse_ws (c # cs) = 32 # collapse_ws (dropWhile py_isspace cs)"
  by (induction cs arbitrary: c) simp_all

lemma collapse_ws_copy: "\<not> py_isspace c \<Longrightarrow> collapse_ws (c # cs) = c # collapse_ws cs"
  by (cases cs) simp_all

lemma re_sub_plus_collapse_gen:
  "cls = py_isspace \<Longrightarrow> repl = [32] \<Longrightarrow> re_sub_plus cls repl s = collapse_ws s"
  by (induction cls repl s rule: re_sub_plus.induct)
     (simp_all add: collapse_ws_run collapse_ws_copy)

lemma re_sub_plus_collapse: "re_sub_plus py_isspace [32] s = collapse_ws s"
  by (rule re_sub_plus_collapse_gen) simp_all

lemma py_upper_map: "py_upper s = map ascii_upper s"
  by (induction s) (simp_all add: py_upper_def to_upper_full_def ascii_upper_def)

lemma normalize_str_steps: "normalize_str s = spec_normalize s"
  by (simp add: normalize_str_def spec_normalize_def str_replace_char re_sub_plus_delete
      re_sub_plus_collapse py_upper_map not_word_char_iff)

subsection \<open>The result of the five steps is a normalized token\<close>

lemma space_is_space: "py_isspace 32"
  by (simp add: py_isspace_def)

lemma word_char_space_iff: "word_char c \<Longrightarrow> py_isspace c \<longleftrightarrow> c = 32"
  by (auto simp: word_char_def py_isspace_def is_upper_az_def is_lower_az_def is_digit09_def)

lemma single_spaced_Cons_other: "c \<noteq> 32 \<Longrightarrow> single_spaced (c # xs) = single_spaced xs"
  by (cases xs) simp_all

lemma single_spaced_tl: "single_spaced (c # xs) \<Longrightarrow> single_spaced xs"
  by (cases xs) simp_all

lemma single_spaced_append_left: "single_spaced (xs @ ys) \<Longrightarrow> single_spaced xs"
  by (induction xs rule: single_spaced.induct) simp_all

lemma single_spaced_append_right: "single_spaced (xs @ ys) \<Longrightarrow> single_spaced ys"
  by (induction xs) (auto dest: single_spaced_tl)

lemma list_all_collapse_ws: "list_all word_char t \<Longrightarrow> list_all word_char (collapse_ws t)"
  by (induction t rule: collapse_ws.induct) (simp_all add: word_char_def)

lemma not_space_32: "\<not> py_isspace c \<Longrightarrow> c \<noteq> 32"
  using space_is_space by auto

lemma single_spaced_collapse_ws: "single_spaced (collapse_ws t)"
proof (induction t rule: collapse_ws.induct)
  case (3 c d cs)
  show ?case
  proof (cases "py_isspace c")
    case True
    then show ?thesis using 3
      by (cases "py_isspace d") (simp_all add: collapse_ws_copy not_space_32)
  next
    case False
    then show ?thesis using 3
      by (simp add: single_spaced_Cons_other not_space_32 del: single_spaced.simps)
  qed
qed simp_all

lemma strip_prefix: "\<exists>zs. xs = rev (dropWhile P (rev xs)) @ zs"
proof -
  have "rev (dropWhile P (rev xs)) @ rev (takeWhile P (rev xs))
        = rev (takeWhile P (rev xs) @ dropWhile P (rev xs))"
    by (simp only: rev_append)
  also have "\<dots> = xs"
    by (simp only: takeWhile_dropWhile_id rev_rev_ident)
  finally show ?thesis by metis
qed

lemma strip_suffix: "\<exists>zs. xs = zs @ dropWhile P xs"
  by (metis takeWhile_dropWhile_id)

lemma single_spaced_py_strip: "single_spaced t \<Longrightarrow> single_spaced (py_strip t)"
proof -
  assume a: "single_spaced t"
  obtain zs where "t = zs @ dropWhile py_isspace t" using strip_suffix by blast
  with a have b: "single_spaced (dropWhile py_isspace t)"
    using single_spaced_append_right by metis
  obtain ys where "dropWhile py_isspace t = py_strip t @ ys"
    unfolding py_strip_def using strip_prefix by blast
  with b show ?thesis using single_spaced_append_left by metis
qed

lemma set_py_strip: "set (py_strip t) \<subseteq> set t"
  unfolding py_strip_def by (metis set_dropWhileD set_rev subsetI)

lemma list_all_py_strip: "list_all P t \<Longrightarrow> list_all P (py_strip t)"
  using set_py_strip by (auto simp: list_all_iff)

lemma trimmed_py_strip: "trimmed (py_strip t)"
proof (cases "py_strip t")
  case Nil
  then show ?thesis by (simp add: trimmed_def)
next
  case (Cons c cs)
  let ?u = "dropWhile py_isspace t"
  let ?r = "dropWhile py_isspace (rev ?u)"
  have ne: "?r \<noteq> []" using Cons by (auto simp: py_strip_def)
  then have l: "\<not> py_isspace (hd ?r)" by (simp add: hd_dropWhile)
  have "last (py_strip t) = hd ?r" using ne by (simp add: py_strip_def last_rev)
  with l have last_ok: "\<not> py_isspace (last (py_strip t))" by simp
  obtain ys where u: "?u = py_strip t @ ys"
    unfolding py_strip_def using strip_prefix by blast
  then have "?u \<noteq> []" using Cons by auto
  then have "\<not> py_isspace (hd ?u)" by (simp add: hd_dropWhile)
  moreover have "hd ?u = c" using u Cons by simp
  ultimately show ?thesis using last_ok Cons by (simp add: trimmed_def)
qed

lemma ascii_upper_token: "word_char c \<Longrightarrow> token_char (ascii_upper c)"
  by (auto simp: word_char_def token_char_def ascii_upper_def is_upper_az_def is_lower_az_def
      is_digit09_def)

lemma ascii_upper_space: "ascii_upper c = 32 \<longleftrightarrow> c = 32"
  by (auto simp: ascii_upper_def is_lower_az_def)

lemma ascii_upper_isspace: "py_isspace (ascii_upper c) \<longleftrightarrow> py_isspace c"
  by (auto simp: ascii_upper_def is_lower_az_def py_isspace_def)

lemma list_all_map_upper: "list_all word_char t \<Longrightarrow> list_all token_char (map ascii_upper t)"
  by (induction t) (simp_all add: ascii_upper_token)

lemma single_spaced_map_upper: "single_spaced (map ascii_upper t) = single_spaced t"
  by (induction t rule: single_spaced.induct) (simp_all add: ascii_upper_space)

lemma trimmed_map_upper: "trimmed (map ascii_upper t) = trimmed t"
  by (cases t) (simp_all add: trimmed_def ascii_upper_isspace last_map)

lemma list_all_filter_self: "list_all P (filter P xs)"
  by (induction xs) simp_all

lemma normalized_spec_normalize: "normalized (spec_normalize s)"
  unfolding normalized_def spec_normalize_def
  by (simp add: list_all_map_upper list_all_py_strip list_all_collapse_ws list_all_filter_self
      single_spaced_map_upper single_spaced_py_strip single_spaced_collapse_ws
      trimmed_map_upper trimmed_py_strip)

subsection \<open>A normalized token is a fixed point of every step\<close>

lemma token_char_word_char: "token_char c \<Longrightarrow> word_char c"
  by (auto simp: token_char_def word_char_def)

lemma token_char_no_period: "token_char c \<Longrightarrow> c \<noteq> 46"
  by (auto simp: token_char_def is_upper_az_def is_digit09_def)

lemma token_char_upper_id: "token_char c \<Longrightarrow> ascii_upper c = c"
  by (auto simp: token_char_def ascii_upper_def is_upper_az_def is_digit09_def is_lower_az_def)

lemma collapse_ws_id:
  "list_all word_char t \<Longrightarrow> single_spaced t \<Longrightarrow> collapse_ws t = t"
proof (induction t rule: collapse_ws.induct)
  case (2 c)
  then show ?case by (simp add: word_char_space_iff)
next
  case (3 c d cs)
  then show ?case by (auto simp: word_char_space_iff)
qed simp

lemma dropWhile_hd_id: "xs = [] \<or> \<not> P (hd xs) \<Longrightarrow> dropWhile P xs = xs"
  by (cases xs) auto

lemma py_strip_id: "trimmed t \<Longrightarrow> py_strip t = t"
proof (cases t)
  case Nil
  then show ?thesis by (simp add: py_strip_def)
next
  case (Cons c cs)
  assume "trimmed t"
  with Cons have h: "\<not> py_isspace c" and l: "\<not> py_isspace (last t)"
    by (simp_all add: trimmed_def)
  have 1: "dropWhile py_isspace t = t" using Cons h by simp
  have "hd (rev t) = last t" using Cons by (simp add: hd_rev)
  then have 2: "dropWhile py_isspace (rev t) = rev t"
    using l by (intro dropWhile_hd_id) simp
  show ?thesis by (simp add: py_strip_def 1 2)
qed

lemma spec_normalize_fixed: "normalized t \<Longrightarrow> spec_normalize t = t"
proof -
  assume n: "normalized t"
  then have tc: "list_all token_char t" and ss: "single_spaced t" and tr: "trimmed t"
    by (simp_all add: normalized_def)
  have wc: "list_all word_char t"
    using tc by (auto simp: list_all_iff token_char_word_char)
  have 1: "map (\<lambda>c. if c = 46 then 32 else c) t = t"
    using tc by (auto simp: list_all_iff token_char_no_period intro: map_idI)
  have 2: "filter word_char t = t"
    using wc by (simp add: list_all_iff)
  have 5: "map ascii_upper t = t"
    using tc by (auto simp: list_all_iff token_char_upper_id intro: map_idI)
  show ?thesis
    by (simp add: spec_normalize_def 1 2 collapse_ws_id [OF wc ss] py_strip_id [OF tr] 5)
qed

subsection \<open>Strings made only of removed characters\<close>

lemma filter_all_spaces:
  "list_all (\<lambda>c. \<not> kept_char c) s \<Longrightarrow>
     list_all (\<lambda>c. c = 32) (filter word_char (map (\<lambda>c. if c = 46 then 32 else c) s))"
  by (induction s) (auto simp: kept_char_def word_char_def)

lemma dropWhile_all: "list_all P xs \<Longrightarrow> dropWhile P xs = []"
  by (induction xs) simp_all

lemma strip_collapse_spaces: "list_all (\<lambda>c. c = 32) t \<Longrightarrow> py_strip (collapse_ws t) = []"
proof (cases t)
  case Nil
  then show ?thesis by (simp add: py_strip_def)
next
  case (Cons c cs)
  assume a: "list_all (\<lambda>c. c = 32) t"
  then have "list_all py_isspace cs" using Cons
    by (auto simp: list_all_iff space_is_space)
  then have d: "dropWhile py_isspace cs = []" by (rule dropWhile_all)
  have "py_isspace c" using a Cons by (simp add: space_is_space)
  then have "collapse_ws t = [32]" using Cons by (simp add: collapse_ws_run d)
  then show ?thesis by (simp add: py_strip_def space_is_space)
qed

lemma spec_normalize_removed: "list_all (\<lambda>c. \<not> kept_char c) s \<Longrightarrow> spec_normalize s = []"
  by (simp add: spec_normalize_def strip_collapse_spaces filter_all_spaces)

subsection \<open>Title-casing of ASCII strings\<close>

lemmas char_defs = is_upper_az_def is_lower_az_def is_digit09_def is_letter_def
  ascii_upper_def ascii_lower_def

lemma do_title_ascii_Cons:
  "c < 128 \<Longrightarrow> do_title p (c # cs) =
     (if p then ascii_lower c else ascii_upper c) # do_title (is_letter c) cs"
  by (simp add: to_lower_full_def to_title_full_def is_cased_def char_defs)

lemma title_char_facts:
  fixes p :: bool
  assumes "c < 128" and "c' = (if p then ascii_lower c else ascii_upper c)"
  shows "c' < 128" and "is_letter c' = is_letter c"
    and "(if p then ascii_lower c' else ascii_upper c') = c'"
  using assms by (auto simp: char_defs)

lemma do_title_idem: "is_ascii s \<Longrightarrow> do_title p (do_title p s) = do_title p s"
proof (induction s arbitrary: p)
  case Nil
  then show ?case by simp
next
  case (Cons c cs)
  then have c: "c < 128" and cs: "is_ascii cs" by (simp_all add: is_ascii_def)
  let ?c' = "if p then ascii_lower c else ascii_upper c"
  have "do_title p (do_title p (c # cs)) = do_title p (?c' # do_title (is_letter c) cs)"
    by (simp only: do_title_ascii_Cons [OF c])
  also have "\<dots> = (if p then ascii_lower ?c' else ascii_upper ?c')
                     # do_title (is_letter ?c') (do_title (is_letter c) cs)"
    by (rule do_title_ascii_Cons) (rule title_char_facts(1) [OF c refl])
  also have "\<dots> = ?c' # do_title (is_letter c) cs"
    by (simp only: title_char_facts(2,3) [OF c refl] Cons.IH [OF cs])
  finally show ?case by (simp only: do_title_ascii_Cons [OF c])
qed

lemma py_title_idem: "is_ascii s \<Longrightarrow> py_title (py_title s) = py_title s"
  by (simp add: py_title_def do_title_idem)

lemma do_title_no_two_capitals:
  assumes "is_ascii s" and "is_upper_az a" and "is_upper_az b"
  shows "do_title p s \<noteq> a # b # r"
proof (cases s)
  case Nil
  then show ?thesis by simp
next
  case (Cons c s')
  show ?thesis
  proof (cases s')
    case Nil
    with \<open>s = c # s'\<close> assms(1) have "c < 128" by (simp add: is_ascii_def)
    then have "do_title p [c] = [if p then ascii_lower c else ascii_upper c]"
      by (simp only: do_title_ascii_Cons do_title.simps(1))
    with Nil \<open>s = c # s'\<close> show ?thesis by simp
  next
    case (Cons d s'')
    with \<open>s = c # s'\<close> assms(1) have c: "c < 128" and d: "d < 128"
      by (simp_all add: is_ascii_def)
    show ?thesis
    proof
      assume eq: "do_title p s = a # b # r"
      then have a: "a = (if p then ascii_lower c else ascii_upper c)"
        and b: "b = (if is_letter c then ascii_lower d else ascii_upper d)"
        using \<open>s = c # s'\<close> Cons
        by (simp_all add: do_title_ascii_Cons c d del: do_title.simps(2))
      from a assms(2) have "is_letter c" by (auto simp: char_defs split: if_splits)
      with b have "b = ascii_lower d" by simp
      with assms(3) show False by (auto simp: char_defs split: if_splits)
    qed
  qed
qed

subsection \<open>The label mapper\<close>

lemma py_title_not_key:
  "is_ascii s \<Longrightarrow> py_title s \<notin> fst ` set spec_fixed_table"
  by (simp add: spec_fixed_table_def cps_def py_title_def do_title_no_two_capitals
      is_upper_az_def)

lemma py_title_not_label:
  "is_ascii s \<Longrightarrow> py_title s \<notin> snd ` set spec_fixed_table"
  by (simp add: spec_fixed_table_def cps_def py_title_def do_title_no_two_capitals
      is_upper_az_def)

lemma map_clean_label_table:
  "map_clean_label norm =
     (case map_of spec_fixed_table norm of Some v \<Rightarrow> v | None \<Rightarrow> py_title norm)"
  by (simp add: map_clean_label_def spec_fixed_table_def cps_def)

subsection \<open>Title-casing, position by position\<close>

lemma do_title_length: "is_ascii t \<Longrightarrow> length (do_title p t) = length t"
proof (induction t arbitrary: p)
  case Nil
  then show ?case by simp
next
  case (Cons c cs)
  then have c: "c < 128" and cs: "is_ascii cs" by (simp_all add: is_ascii_def)
  show ?case by (simp add: do_title_ascii_Cons [OF c] Cons.IH [OF cs] del: do_title.simps(2))
qed

lemma do_title_nth:
  "is_ascii t \<Longrightarrow> i < length t \<Longrightarrow>
     do_title p t ! i =
       (if (if i = 0 then p else is_letter (t ! (i - 1))) then ascii_lower (t ! i)
        else ascii_upper (t ! i))"
proof (induction t arbitrary: p i)
  case Nil
  then show ?case by simp
next
  case (Cons c cs)
  then have c: "c < 128" and cs: "is_ascii cs" by (simp_all add: is_ascii_def)
  show ?case
  proof (cases i)
    case 0
    then show ?thesis by (simp add: do_title_ascii_Cons [OF c] del: do_title.simps(2))
  next
    case (Suc j)
    with Cons.prems have j: "j < length cs" by simp
    have "do_title p (c # cs) ! i = do_title (is_letter c) cs ! j"
      using Suc by (simp add: do_title_ascii_Cons [OF c] del: do_title.simps(2))
    also have "\<dots> = (if (if j = 0 then is_letter c else is_letter (cs ! (j - 1)))
                       then ascii_lower (cs ! j) else ascii_upper (cs ! j))"
      by (rule Cons.IH [OF cs j])
    finally show ?thesis using Suc by (cases j) simp_all
  qed
qed

lemma py_title_run_title: "is_ascii t \<Longrightarrow> py_title t = run_title t"
proof (rule nth_equalityI)
  assume a: "is_ascii t"
  show "length (py_title t) = length (run_title t)"
    by (simp add: py_title_def run_title_def do_title_length [OF a])
  fix i assume "i < length (py_title t)"
  then have i: "i < length t" by (simp add: py_title_def do_title_length [OF a])
  show "py_title t ! i = run_title t ! i"
    using i by (auto simp: py_title_def run_title_def do_title_nth [OF a i])
qed

lemma token_char_ascii: "token_char c \<Longrightarrow> c < 128"
  by (auto simp: token_char_def is_upper_az_def is_digit09_def)

lemma normalized_is_ascii: "normalized t \<Longrightarrow> is_ascii t"
  by (auto simp: normalized_def is_ascii_def list_all_iff token_char_ascii)

lemma normalize_str_is_ascii: "is_ascii (normalize_str s)"
  by (simp add: normalize_str_steps normalized_spec_normalize normalized_is_ascii)

lemma is_ascii_py_title: "is_ascii s \<Longrightarrow> is_ascii (py_title s)"
proof -
  assume a: "is_ascii s"
  have "\<And>p. is_ascii (do_title p s)" using a
  proof (induction s)
    case Nil
    then show ?case by (simp add: is_ascii_def)
  next
    case (Cons c cs)
    then have c: "c < 128" and cs: "is_ascii cs" by (simp_all add: is_ascii_def)
    have "(if p then ascii_lower c else ascii_upper c) < 128"
      by (rule title_char_facts(1) [OF c refl])
    then show ?case using Cons.IH [OF cs]
      by (simp add: do_title_ascii_Cons [OF c] is_ascii_def del: do_title.simps(2))
  qed
  then show ?thesis by (simp add: py_title_def)
qed

subsection \<open>Labels are fixed points of the label mapper\<close>

lemma map_clean_label_title_fixed:
  "is_ascii s \<Longrightarrow> map_clean_label (py_title s) = py_title s"
proof -
  assume a: "is_ascii s"
  have "py_title s \<notin> fst ` set spec_fixed_table" by (rule py_title_not_key [OF a])
  then have "map_of spec_fixed_table (py_title s) = None"
    by (simp add: map_of_eq_None_iff)
  then show ?thesis by (simp add: map_clean_label_table py_title_idem [OF a])
qed

lemma map_clean_label_label_fixed:
  "v \<in> snd ` set spec_fixed_table \<Longrightarrow> map_clean_label v = v"
  by (auto simp: spec_fixed_table_def map_clean_label_def cps_def)

lemma map_clean_label_cases:
  "map_clean_label norm \<in> snd ` set spec_fixed_table \<or> map_clean_label norm = py_title norm"
  by (simp add: map_clean_label_def spec_fixed_table_def)

subsection \<open>Evaluation on literals\<close>

lemmas eval_defs = cps_def normalize_str_def str_replace_def not_word_char_def py_isspace_def py_strip_def py_upper_def
  to_upper_full_def is_upper_az_def is_lower_az_def is_digit09_def map_clean_label_def py_title_def to_title_full_def to_lower_full_def is_cased_def

subsection \<open>The key-filler\<close>

lemma list_setitem_in_range:
  "0 \<le> i \<Longrightarrow> i < int (length xs) \<Longrightarrow> list_setitem xs i v = Inr (xs[nat i := v])"
  by (simp add: list_setitem_def)

lemma inject_expected_ok:
  "int (length keys) = n \<Longrightarrow>
     \<exists>keys'. inject_expected n items keys = Inr keys' \<and> length keys' = length keys \<and>
       (\<forall>i < length keys. keys' ! i =
           (case map_of (rev items) (int i) of Some v \<Rightarrow> v | None \<Rightarrow> keys ! i))"
proof (induction items arbitrary: keys)
  case Nil
  then show ?case by simp
next
  case (Cons item items)
  obtain idx val where item: "item = (idx, val)" by (cases item)
  show ?case
  proof (cases "0 \<le> idx \<and> idx < n")
    case True
    let ?k = "keys[nat idx := val]"
    have set: "list_setitem keys idx val = Inr ?k"
      using True Cons.prems by (simp add: list_setitem_in_range)
    have "int (length ?k) = n" using Cons.prems by simp
    from Cons.IH [OF this] obtain keys' where
      r: "inject_expected n items ?k = Inr keys'" and l: "length keys' = length ?k"
      and v: "\<forall>i < length ?k. keys' ! i =
           (case map_of (rev items) (int i) of Some v \<Rightarrow> v | None \<Rightarrow> ?k ! i)"
      by blast
    have "inject_expected n (item # items) keys = Inr keys'"
      using True set r by (simp add: item)
    moreover have "length keys' = length keys" using l by simp
    moreover have "\<forall>i < length keys. keys' ! i =
           (case map_of (rev (item # items)) (int i) of Some v \<Rightarrow> v | None \<Rightarrow> keys ! i)"
    proof (intro allI impI)
      fix i assume i: "i < length keys"
      then have "keys' ! i = (case map_of (rev items) (int i) of Some v \<Rightarrow> v | None \<Rightarrow> ?k ! i)"
        using v by simp
      then show "keys' ! i =
           (case map_of (rev (item # items)) (int i) of Some v \<Rightarrow> v | None \<Rightarrow> keys ! i)"
        using i True
        by (auto simp: item map_add_def nth_list_update split: option.splits)
    qed
    ultimately show ?thesis by blast
  next
    case False
    from Cons.IH [OF Cons.prems] obtain keys' where
      r: "inject_expected n items keys = Inr keys'" and l: "length keys' = length keys"
      and v: "\<forall>i < length keys. keys' ! i =
           (case map_of (rev items) (int i) of Some v \<Rightarrow> v | None \<Rightarrow> keys ! i)"
      by blast
    have "inject_expected n (item # items) keys = Inr keys'"
      using False r by (auto simp: item)
    moreover have "\<forall>i < length keys. keys' ! i =
           (case map_of (rev (item # items)) (int i) of Some v \<Rightarrow> v | None \<Rightarrow> keys ! i)"
    proof (intro allI impI)
      fix i assume i: "i < length keys"
      then have "int i \<noteq> idx" using False Cons.prems by auto
      then show "keys' ! i =
           (case map_of (rev (item # items)) (int i) of Some v \<Rightarrow> v | None \<Rightarrow> keys ! i)"
        using v i by (auto simp: item map_add_def split: option.splits)
    qed
    ultimately show ?thesis using l by blast
  qed
qed

lemma filler_nth: "i < nat n \<Longrightarrow> map key_filler [0..n - 1] ! i = key_filler (int i)"
  by (simp add: nth_upto)

text \<open>The digits that \<open>decimal\<close> writes read back as the number.\<close>

lemma digits_value_snoc: "digits_value (ds @ [d]) = 10 * digits_value ds + (d - 48)"
  by (simp add: digits_value_def)

lemma decimal_not_empty: "decimal n \<noteq> []"
  by (subst decimal.simps) simp

lemma decimal_digits: "list_all is_digit09 (decimal n)"
proof (induction n rule: decimal.induct)
  case (1 n)
  show ?case
  proof (cases "n < 10")
    case True
    then show ?thesis by (subst decimal.simps) (simp add: is_digit09_def)
  next
    case False
    then have "list_all is_digit09 (decimal (n div 10))" by (rule 1)
    moreover have "is_digit09 (48 + n mod 10)" by (simp add: is_digit09_def)
    ultimately show ?thesis using False by (subst decimal.simps) simp
  qed
qed

lemma decimal_value: "digits_value (decimal n) = n"
proof (induction n rule: decimal.induct)
  case (1 n)
  show ?case
  proof (cases "n < 10")
    case True
    then show ?thesis by (subst decimal.simps) (simp add: digits_value_def)
  next
    case False
    then have "digits_value (decimal (n div 10)) = n div 10" by (rule 1)
    then show ?thesis using False
      by (subst decimal.simps) (simp add: digits_value_snoc)
  qed
qed

lemma decimal_leading_zero: "hd (decimal n) = 48 \<Longrightarrow> n = 0"
proof (induction n rule: decimal.induct)
  case (1 n)
  show ?case
  proof (cases "n < 10")
    case True
    with 1(2) show ?thesis by (subst (asm) decimal.simps) simp
  next
    case False
    with 1(2) have "hd (decimal (n div 10)) = 48"
      by (subst (asm) decimal.simps) (simp add: decimal_not_empty)
    with False have "n div 10 = 0" by (rule 1(1))
    with False show ?thesis by simp
  qed
qed

lemma decimal_zero: "decimal 0 = [48]"
  by (subst decimal.simps) simp

lemma spec_filler_key_filler: "0 \<le> i \<Longrightarrow> spec_filler (nat i) (key_filler i)"
proof -
  assume "0 \<le> i"
  then have k: "key_filler i = cps ''key_filler_'' @ decimal (nat i)"
    by (simp add: key_filler_def py_str_int_def)
  have "hd (decimal (nat i)) = 48 \<longrightarrow> length (decimal (nat i)) = 1"
    using decimal_leading_zero [of "nat i"] by (auto simp: decimal_zero)
  then show ?thesis
    unfolding spec_filler_def k
    by (simp add: decimal_not_empty decimal_digits decimal_value)
qed

lemma expected_lookup:
  "0 \<le> i \<Longrightarrow>
     spec_key_row i (case map_of (rev expected) i of Some v \<Rightarrow> v | None \<Rightarrow> key_filler i)"
  by (simp add: expected_def spec_key_row_def spec_filler_key_filler)

lemma make_test_keys_ok:
  "0 \<le> n \<Longrightarrow> \<exists>keys. make_test_keys n = Inr keys \<and> length keys = nat n \<and>
     (\<forall>i < nat n. spec_key_row (int i) (keys ! i))"
proof -
  assume n: "0 \<le> n"
  let ?k0 = "map key_filler [0..n - 1]"
  have "int (length ?k0) = n" using n by simp
  from inject_expected_ok [OF this, of expected] obtain keys where
    r: "inject_expected n expected ?k0 = Inr keys" and l: "length keys = length ?k0"
    and v: "\<forall>i < length ?k0. keys ! i =
           (case map_of (rev expected) (int i) of Some v \<Rightarrow> v | None \<Rightarrow> ?k0 ! i)"
    by blast
  have "\<forall>i < nat n. spec_key_row (int i) (keys ! i)"
  proof (intro allI impI)
    fix i assume i: "i < nat n"
    then have "keys ! i = (case map_of (rev expected) (int i) of Some v \<Rightarrow> v | None \<Rightarrow> ?k0 ! i)"
      using v by simp
    also have "\<dots> = (case map_of (rev expected) (int i) of Some v \<Rightarrow> v | None \<Rightarrow> key_filler (int i))"
      by (simp only: filler_nth [OF i])
    finally show "spec_key_row (int i) (keys ! i)" by (simp only: expected_lookup of_nat_0_le_iff)
  qed
  then show ?thesis using r l by (simp add: make_test_keys_def)
qed

lemma make_test_keys_neg: "n < 0 \<Longrightarrow> make_test_keys n = Inr []"
  by (simp add: make_test_keys_def expected_def)

lemma make_test_keys_total: "\<exists>keys. make_test_keys n = Inr keys"
  using make_test_keys_ok [of n] make_test_keys_neg [of n] by (cases "0 \<le> n") auto

subsection \<open>The entry operation\<close>

lemma clean_loop_acc:
  "clean_loop raw_texts cleaned =
     cleaned @ map (\<lambda>s. map_clean_label (normalize_str s)) raw_texts"
  by (induction raw_texts arbitrary: cleaned) simp_all

lemma main_missing:
  "fs input_path = None \<Longrightarrow>
     main read_raw to_csv write_fails fs input_path output_path
       = (Inl (FileNotFoundError input_path), fs)"
  by (simp add: main_def)

lemma main_read_fails:
  "fs input_path = Some content \<Longrightarrow> read_raw content = Inl x \<Longrightarrow>
     main read_raw to_csv write_fails fs input_path output_path = (Inl (Raised x), fs)"
  by (simp add: main_def)

lemma main_first_write_fails:
  "fs input_path = Some content \<Longrightarrow> read_raw content = Inr raw_texts \<Longrightarrow>
   write_fails output_path = Some x \<Longrightarrow>
     main read_raw to_csv write_fails fs input_path output_path = (Inl (Raised x), fs)"
  by (simp add: main_def write_file_def)

text \<open>A failure of the second write leaves the first output file written.\<close>

lemma main_second_write_fails:
  "fs input_path = Some content \<Longrightarrow> read_raw content = Inr raw_texts \<Longrightarrow>
   write_fails output_path = None \<Longrightarrow> write_fails (cps ''files/test.csv'') = Some x \<Longrightarrow>
     main read_raw to_csv write_fails fs input_path output_path =
       (Inl (Raised x),
        fs(output_path \<mapsto> to_csv (cps ''cleaned_text'')
                             (map (\<lambda>s. map_clean_label (normalize_str s)) raw_texts)))"
proof -
  assume a: "fs input_path = Some content" "read_raw content = Inr raw_texts"
    "write_fails output_path = None" "write_fails (cps ''files/test.csv'') = Some x"
  obtain ks where k: "make_test_keys (int (length raw_texts)) = Inr ks"
    using make_test_keys_total by blast
  show ?thesis by (simp add: main_def write_file_def a k clean_loop_acc)
qed

lemma main_succeeds:
  "fs input_path = Some content \<Longrightarrow> read_raw content = Inr raw_texts \<Longrightarrow>
   write_fails output_path = None \<Longrightarrow> write_fails (cps ''files/test.csv'') = None \<Longrightarrow>
     \<exists>test_keys. make_test_keys (int (length raw_texts)) = Inr test_keys \<and>
     main read_raw to_csv write_fails fs input_path output_path =
       (Inr (),
        fs(output_path \<mapsto> to_csv (cps ''cleaned_text'')
                             (map (\<lambda>s. map_clean_label (normalize_str s)) raw_texts),
           cps ''files/test.csv'' \<mapsto> to_csv (cps ''key'') test_keys))"
proof -
  assume a: "fs input_path = Some content" "read_raw content = Inr raw_texts"
    "write_fails output_path = None" "write_fails (cps ''files/test.csv'') = None"
  obtain ks where k: "make_test_keys (int (length raw_texts)) = Inr ks"
    using make_test_keys_total by blast
  show ?thesis by (simp add: main_def write_file_def a k clean_loop_acc)
qed

section \<open>The claims\<close>

text \<open>
  Claim C1. For every input string whose normalized token is a key of the fixed table,
  the label mapper returns exactly the label of that key (\<open>ADHOC QUERIES\<close> and
  \<open>AD-HOC QUERIES\<close> both give \<open>AD-HOC QUERIES\<close>). The match is by equality of the
  whole token: a token that is not a key gets its title-cased form, and that form is
  never one of the fixed labels.
\<close>

theorem map_clean_label_fixed_table:
  "(map_of spec_fixed_table (normalize_str s) = Some v \<longrightarrow>
      map_clean_label (normalize_str s) = v) \<and>
   (map_of spec_fixed_table (normalize_str s) = None \<longrightarrow>
      map_clean_label (normalize_str s) = py_title (normalize_str s) \<and>
      map_clean_label (normalize_str s) \<notin> snd ` set spec_fixed_table)"
  by (simp add: map_clean_label_table py_title_not_label normalize_str_is_ascii)

theorem map_clean_label_fixed_table_witness:
  "map_of spec_fixed_table (normalize_str (cps ''adhoc  queries.'')) = Some (cps ''AD-HOC QUERIES'') \<and>
   map_clean_label (normalize_str (cps ''adhoc  queries.'')) = cps ''AD-HOC QUERIES'' \<and>
   map_of spec_fixed_table (normalize_str (cps ''Airlines Inc'')) = None \<and>
   map_clean_label (normalize_str (cps ''Airlines Inc'')) = py_title (normalize_str (cps ''Airlines Inc'')) \<and>
   map_clean_label (normalize_str (cps ''Airlines Inc'')) \<notin> snd ` set spec_fixed_table"
proof -
  have key: "map_of spec_fixed_table (normalize_str (cps ''adhoc  queries.''))
               = Some (cps ''AD-HOC QUERIES'')"
    by (simp add: eval_defs spec_fixed_table_def)
  have no_key: "map_of spec_fixed_table (normalize_str (cps ''Airlines Inc'')) = None"
    by (simp add: eval_defs spec_fixed_table_def)
  from key no_key
    map_clean_label_fixed_table [of "cps ''adhoc  queries.''" "cps ''AD-HOC QUERIES''"]
    map_clean_label_fixed_table [of "cps ''Airlines Inc''"]
  show ?thesis by blast
qed

text \<open>
  Claim C2, as the module has it. For every normalized token that is none of the table
  keys, the label is the token with each letter lowercased when the character just
  before it is a letter and left capital otherwise: a letter after a hyphen or a
  digit is capitalized, like a letter after a space.
\<close>

theorem map_clean_label_fallback:
  "map_of spec_fixed_table (normalize_str s) = None \<Longrightarrow>
     map_clean_label (normalize_str s) = run_title (normalize_str s)"
  by (simp add: map_clean_label_table py_title_run_title normalize_str_is_ascii)

theorem map_clean_label_fallback_witness:
  "map_of spec_fixed_table (normalize_str (cps ''ad-hoc 3d'')) = None \<and>
   map_clean_label (normalize_str (cps ''ad-hoc 3d'')) = run_title (normalize_str (cps ''ad-hoc 3d'')) \<and>
   map_clean_label (normalize_str (cps ''ad-hoc 3d'')) = cps ''Ad-Hoc 3D''"
proof -
  have h: "map_of spec_fixed_table (normalize_str (cps ''ad-hoc 3d'')) = None"
    by (simp add: eval_defs spec_fixed_table_def)
  have v: "map_clean_label (normalize_str (cps ''ad-hoc 3d'')) = cps ''Ad-Hoc 3D''"
    by (simp add: eval_defs)
  from h v map_clean_label_fallback [OF h] show ?thesis by simp
qed

text \<open>
  Claim C2, as the specification words it, fails: the token \<open>AD-HOC\<close> is not a table
  key, and its label is \<open>Ad-Hoc\<close>, with a capital after the hyphen, where the
  title-casing by white-space-separated words gives \<open>Ad-hoc\<close>.
\<close>

theorem map_clean_label_fallback_counterexample:
  "\<not> (map_of spec_fixed_table (normalize_str (cps ''ad-hoc'')) = None \<longrightarrow>
        map_clean_label (normalize_str (cps ''ad-hoc'')) =
          spec_title_case (normalize_str (cps ''ad-hoc'')))"
  by (simp add: eval_defs spec_fixed_table_def spec_title_case_def char_defs)

text \<open>
  Claim C3, as the module has it. The input \<open>Ad Hoc Queries\<close> normalizes to
  \<open>AD HOC QUERIES\<close>; that token is not a table key (the keys are spelled \<open>ADHOC\<close>
  and \<open>AD-HOC\<close>), and its label is the title-cased \<open>Ad Hoc Queries\<close>.
\<close>

theorem ad_hoc_queries_scenario:
  "normalize_str (cps ''Ad Hoc Queries'') = cps ''AD HOC QUERIES'' \<and>
   map_of spec_fixed_table (cps ''AD HOC QUERIES'') = None \<and>
   map_clean_label (normalize_str (cps ''Ad Hoc Queries'')) = cps ''Ad Hoc Queries''"
  by (simp add: eval_defs spec_fixed_table_def)

text \<open>
  Claim C3, as the specification words it, fails: the label of \<open>Ad Hoc Queries\<close> is
  not \<open>AD-HOC QUERIES\<close>.
\<close>

theorem ad_hoc_queries_counterexample:
  "\<not> (normalize_str (cps ''Ad Hoc Queries'') = cps ''AD HOC QUERIES'' \<and>
        map_clean_label (normalize_str (cps ''Ad Hoc Queries'')) = cps ''AD-HOC QUERIES'')"
  by (simp add: eval_defs)

text \<open>
  Claim C4. For every input string the normalizer computes the five steps of the
  specification in their order (period to space, removal of everything but ASCII
  letters, digits, hyphens and spaces, collapse of white-space runs, strip, upper
  case), and its output is a normalized token: upper case, made of ASCII letters,
  digits, hyphens and spaces only, single-spaced and trimmed.
\<close>

theorem normalize_str_normalized:
  "normalize_str s = spec_normalize s \<and> normalized (normalize_str s)"
  by (simp add: normalize_str_steps normalized_spec_normalize)

theorem normalize_str_normalized_witness:
  "normalize_str (cps ''  Ad.Hoc,   queries! '') = spec_normalize (cps ''  Ad.Hoc,   queries! '') \<and>
   normalized (normalize_str (cps ''  Ad.Hoc,   queries! '')) \<and>
   normalize_str (cps ''  Ad.Hoc,   queries! '') = cps ''AD HOC QUERIES''"
proof -
  have "normalize_str (cps ''  Ad.Hoc,   queries! '') = cps ''AD HOC QUERIES''"
    by (simp add: eval_defs)
  with normalize_str_normalized [of "cps ''  Ad.Hoc,   queries! ''"] show ?thesis by blast
qed

text \<open>
  Claim C5. Normalization is idempotent: normalizing the result of a normalization
  returns it unchanged, and normalizing any normalized token is a no-op.
\<close>

theorem normalize_str_idempotent:
  "normalize_str (normalize_str s) = normalize_str s \<and>
   (normalized t \<longrightarrow> normalize_str t = t)"
proof -
  have "normalized (spec_normalize s)" by (rule normalized_spec_normalize)
  then have "spec_normalize (spec_normalize s) = spec_normalize s"
    by (rule spec_normalize_fixed)
  then show ?thesis by (simp add: normalize_str_steps spec_normalize_fixed)
qed

theorem normalize_str_idempotent_witness:
  "normalized (cps ''AD-HOC QUERIES 2'') \<and>
   normalize_str (cps ''AD-HOC QUERIES 2'') = cps ''AD-HOC QUERIES 2'' \<and>
   normalize_str (normalize_str (cps ''a.b  c'')) = normalize_str (cps ''a.b  c'')"
proof -
  have n: "normalized (cps ''AD-HOC QUERIES 2'')"
    by (simp add: normalized_def trimmed_def token_char_def eval_defs)
  from n normalize_str_idempotent [of "cps ''a.b  c''" "cps ''AD-HOC QUERIES 2''"]
  show ?thesis by blast
qed

text \<open>
  Claim C6. For every list of raw records, the list of cleaned labels that the loop
  of \<open>main\<close> builds has one entry per record, in the order of the records, and each
  entry is the label mapper applied to the normalizer applied to that record.
\<close>

theorem clean_loop_map:
  "clean_loop raw_texts [] = map (\<lambda>s. map_clean_label (normalize_str s)) raw_texts \<and>
   length (clean_loop raw_texts []) = length raw_texts"
  by (simp add: clean_loop_acc)

theorem clean_loop_map_witness:
  "clean_loop [cps ''airlines'', cps ''Ad-Hoc Queries'', cps ''Something Else Entirely''] []
     = [cps ''AIRLINES'', cps ''AD-HOC QUERIES'', cps ''Something Else Entirely'']"
proof -
  have "map (\<lambda>s. map_clean_label (normalize_str s))
          [cps ''airlines'', cps ''Ad-Hoc Queries'', cps ''Something Else Entirely'']
        = [cps ''AIRLINES'', cps ''AD-HOC QUERIES'', cps ''Something Else Entirely'']"
    by (simp add: eval_defs)
  with clean_loop_map
    [of "[cps ''airlines'', cps ''Ad-Hoc Queries'', cps ''Something Else Entirely'']"]
  show ?thesis by simp
qed

text \<open>
  Claim C7. If the input path does not exist, \<open>main\<close> raises
  \<^verbatim>\<open>FileNotFoundError\<close> at once and the file system is unchanged, so neither output
  file is written. This is the only error of \<open>main\<close> itself: whenever \<open>main\<close> fails,
  either it is that error, the input path did not exist and nothing was written, or
  it is the exception of a library call on an existing input (the read or one of the
  two writes), handed on as it is; and when the input exists and no library call
  fails, \<open>main\<close> returns normally.
\<close>

theorem main_file_not_found:
  "(fs input_path = None \<longrightarrow>
      main read_raw to_csv write_fails fs input_path output_path
        = (Inl (FileNotFoundError input_path), fs)) \<and>
   (fst (main read_raw to_csv write_fails fs input_path output_path) = Inl e \<longrightarrow>
      (e = FileNotFoundError input_path \<and> fs input_path = None \<and>
       snd (main read_raw to_csv write_fails fs input_path output_path) = fs) \<or>
      (\<exists>x content. e = Raised x \<and> fs input_path = Some content \<and>
         (read_raw content = Inl x \<or> write_fails output_path = Some x \<or>
          write_fails (cps ''files/test.csv'') = Some x))) \<and>
   (fs input_path = Some content \<and> read_raw content = Inr raw_texts \<and>
    write_fails output_path = None \<and> write_fails (cps ''files/test.csv'') = None \<longrightarrow>
      fst (main read_raw to_csv write_fails fs input_path output_path) = Inr ())"
proof (intro conjI impI)
  assume "fs input_path = None"
  then show "main read_raw to_csv write_fails fs input_path output_path
               = (Inl (FileNotFoundError input_path), fs)"
    by (rule main_missing)
next
  assume "fs input_path = Some content \<and> read_raw content = Inr raw_texts \<and>
    write_fails output_path = None \<and> write_fails (cps ''files/test.csv'') = None"
  then show "fst (main read_raw to_csv write_fails fs input_path output_path) = Inr ()"
    using main_succeeds [of fs input_path content read_raw raw_texts write_fails output_path to_csv]
    by auto
next
  let ?m = "main read_raw to_csv write_fails fs input_path output_path"
  assume f: "fst ?m = Inl e"
  show "(e = FileNotFoundError input_path \<and> fs input_path = None \<and> snd ?m = fs) \<or>
      (\<exists>x content. e = Raised x \<and> fs input_path = Some content \<and>
         (read_raw content = Inl x \<or> write_fails output_path = Some x \<or>
          write_fails (cps ''files/test.csv'') = Some x))"
  proof (cases "fs input_path")
    case None
    then have "?m = (Inl (FileNotFoundError input_path), fs)" by (rule main_missing)
    with f None show ?thesis by simp
  next
    case (Some c)
    show ?thesis
    proof (cases "read_raw c")
      case (Inl x)
      with Some have "?m = (Inl (Raised x), fs)" by (rule main_read_fails)
      with f Some Inl show ?thesis by auto
    next
      case (Inr raw)
      show ?thesis
      proof (cases "write_fails output_path")
        case (Some x)
        with \<open>fs input_path = Some c\<close> Inr have "?m = (Inl (Raised x), fs)"
          by (rule main_first_write_fails)
        with f \<open>fs input_path = Some c\<close> Some show ?thesis by auto
      next
        case None
        show ?thesis
        proof (cases "write_fails (cps ''files/test.csv'')")
          case (Some x)
          with \<open>fs input_path = Some c\<close> Inr None have "fst ?m = Inl (Raised x)"
            by (simp add: main_second_write_fails)
          with f \<open>fs input_path = Some c\<close> Some show ?thesis by auto
        next
          case n2: None
          from main_succeeds [of fs input_path c read_raw raw write_fails output_path to_csv]
            \<open>fs input_path = Some c\<close> Inr None n2
          have "fst ?m = Inr ()" by auto
          with f show ?thesis by simp
        qed
      qed
    qed
  qed
qed

theorem main_file_not_found_witness:
  "(Map.empty :: pystr \<rightharpoonup> pystr list) (cps ''files/input.txt'') = None \<and>
   main Inr (\<lambda>header column. header # column) (\<lambda>path. None) Map.empty
        (cps ''files/input.txt'') (cps ''files/output.txt'')
     = (Inl (FileNotFoundError (cps ''files/input.txt'')), Map.empty) \<and>
   fst (main Inr (\<lambda>header column. header # column)
          (\<lambda>path. if path = cps ''files/test.csv'' then Some (cps ''OSError'') else None)
          [cps ''in.csv'' \<mapsto> [cps ''airlines'']] (cps ''in.csv'') (cps ''out.csv''))
     = Inl (Raised (cps ''OSError'')) \<and>
   fst (main Inr (\<lambda>header column. header # column) (\<lambda>path. None)
          [cps ''in.csv'' \<mapsto> [cps ''airlines'']] (cps ''in.csv'') (cps ''out.csv''))
     = Inr ()"
proof -
  let ?to_csv = "\<lambda>(header :: pystr) column. header # column"
  let ?fs = "[cps ''in.csv'' \<mapsto> [cps ''airlines'']]"
  let ?wf = "\<lambda>path. if path = cps ''files/test.csv'' then Some (cps ''OSError'') else None"
  have h1: "(Map.empty :: pystr \<rightharpoonup> pystr list) (cps ''files/input.txt'') = None"
    by simp
  have a: "main Inr ?to_csv (\<lambda>path. None) Map.empty (cps ''files/input.txt'') (cps ''files/output.txt'')
             = (Inl (FileNotFoundError (cps ''files/input.txt'')), Map.empty)"
    using h1 main_file_not_found
      [of "Map.empty :: pystr \<rightharpoonup> pystr list" "cps ''files/input.txt''" Inr ?to_csv
          "\<lambda>path. None" "cps ''files/output.txt''"]
    by blast
  have p: "?fs (cps ''in.csv'') = Some [cps ''airlines'']" by simp
  have ne: "cps ''out.csv'' \<noteq> cps ''files/test.csv''" by (simp add: cps_def)
  have h2: "fst (main Inr ?to_csv ?wf ?fs (cps ''in.csv'') (cps ''out.csv''))
              = Inl (Raised (cps ''OSError''))"
    using main_second_write_fails [of ?fs "cps ''in.csv''" "[cps ''airlines'']" Inr
        "[cps ''airlines'']" ?wf "cps ''out.csv''" "cps ''OSError''" ?to_csv] p ne
    by simp
  have r: "(Inr [cps ''airlines''] :: pystr + pystr list) = Inr [cps ''airlines'']" by simp
  have h3: "fst (main Inr ?to_csv (\<lambda>path. None) ?fs (cps ''in.csv'') (cps ''out.csv'')) = Inr ()"
    using p main_file_not_found
      [of ?fs "cps ''in.csv''" Inr ?to_csv "\<lambda>path. None" "cps ''out.csv''" _
          "[cps ''airlines'']" "[cps ''airlines'']"]
    by blast
  from main_file_not_found
      [of ?fs "cps ''in.csv''" Inr ?to_csv ?wf "cps ''out.csv''" "Raised (cps ''OSError'')"] h2
  have "(\<exists>x content. Raised (cps ''OSError'') = Raised x \<and> ?fs (cps ''in.csv'') = Some content \<and>
          (Inr content = (Inl x :: pystr + pystr list) \<or> ?wf (cps ''out.csv'') = Some x \<or>
           ?wf (cps ''files/test.csv'') = Some x))"
    using p by auto
  with h1 a h2 h3 show ?thesis by blast
qed

text \<open>
  Claim C8. For every count \<open>n \<ge> 0\<close> the key-filler returns, without raising, a list
  of exactly \<open>n\<close> strings; each of the rows 0, 2, 3, 7, 12 and 17 that is below \<open>n\<close>
  holds its fixed string, every other row \<open>i\<close> holds \<open>key_filler_\<close> followed by
  the decimal digits of \<open>i\<close> (digits only, no leading zero, of value \<open>i\<close>), and a
  fixed row that is not below \<open>n\<close> is skipped.
\<close>

theorem make_test_keys_rows:
  "0 \<le> n \<Longrightarrow>
     \<exists>keys. make_test_keys n = Inr keys \<and> length keys = nat n \<and>
       (\<forall>i < nat n. spec_key_row (int i) (keys ! i))"
  by (rule make_test_keys_ok)

theorem make_test_keys_rows_witness:
  "(0::int) \<le> 18 \<and>
   (\<exists>keys. make_test_keys 18 = Inr keys \<and> length keys = nat 18 \<and>
      (\<forall>i < nat 18. spec_key_row (int i) (keys ! i))) \<and>
   make_test_keys 18 =
     Inr [cps ''alanapatcacsiciolilynnaonplppsatiyt'', cps ''key_filler_1'',
          cps ''alanapatcacsiciolilynansonplppssatiyt'', cps ''alancsdeelicllymonaodsmtiyt'',
          cps ''key_filler_4'', cps ''key_filler_5'', cps ''key_filler_6'',
          cps ''alancadeeliclmlslymonaodstiyt'', cps ''key_filler_8'', cps ''key_filler_9'',
          cps ''key_filler_10'', cps ''key_filler_11'',
          cps ''agalctcudugriclpltodprrariroststuuculur'', cps ''key_filler_13'',
          cps ''key_filler_14'', cps ''key_filler_15'', cps ''key_filler_16'',
          cps ''aiesinirlinerls'']"
proof -
  have h: "(0::int) \<le> 18" by simp
  have v: "make_test_keys 18 =
     Inr [cps ''alanapatcacsiciolilynnaonplppsatiyt'', cps ''key_filler_1'',
          cps ''alanapatcacsiciolilynansonplppssatiyt'', cps ''alancsdeelicllymonaodsmtiyt'',
          cps ''key_filler_4'', cps ''key_filler_5'', cps ''key_filler_6'',
          cps ''alancadeeliclmlslymonaodstiyt'', cps ''key_filler_8'', cps ''key_filler_9'',
          cps ''key_filler_10'', cps ''key_filler_11'',
          cps ''agalctcudugriclpltodprrariroststuuculur'', cps ''key_filler_13'',
          cps ''key_filler_14'', cps ''key_filler_15'', cps ''key_filler_16'',
          cps ''aiesinirlinerls'']"
    by (simp add: make_test_keys_def expected_def list_setitem_def upto.simps key_filler_def
        py_str_int_def decimal.simps cps_def)
  from h v make_test_keys_rows [OF h] show ?thesis by blast
qed

text \<open>
  Claim C9, as the module has it. On ASCII strings, and so on every normalized token
  and every label computed from one, the label mapper is idempotent: each fixed label
  is a key that maps to itself, and the title-cased form of an ASCII string is not a
  key and is its own title-cased form.
\<close>

theorem map_clean_label_idempotent:
  "is_ascii s \<Longrightarrow> map_clean_label (map_clean_label s) = map_clean_label s"
  using map_clean_label_cases [of s] map_clean_label_label_fixed map_clean_label_title_fixed
  by metis

theorem map_clean_label_idempotent_witness:
  "is_ascii (cps ''ADHOC QUERIES'') \<and>
   map_clean_label (map_clean_label (cps ''ADHOC QUERIES'')) = map_clean_label (cps ''ADHOC QUERIES'')"
proof -
  have h: "is_ascii (cps ''ADHOC QUERIES'')" by (simp add: is_ascii_def cps_def)
  from h map_clean_label_idempotent [OF h] show ?thesis by simp
qed

text \<open>
  Claim C9, as the specification words it (for every string), fails beyond ASCII. The
  string U+0061 U+0130 U+0062 is title-cased to U+0041 U+0069 U+0307 U+0062, the
  lower case of U+0130 being two code points; in that label the last letter follows
  the combining dot, which has no case, so a second pass capitalizes it.
\<close>

theorem map_clean_label_idempotent_counterexample:
  "map_clean_label (map_clean_label [97, 304, 98]) \<noteq> map_clean_label [97, 304, 98]"
  by (simp add: eval_defs)

text \<open>
  Claim C10. For every input string made only of characters that normalization
  removes (anything but ASCII letters, ASCII digits and hyphens: the empty string,
  white space, periods, other punctuation, characters beyond ASCII), the normalizer
  returns the empty string, and the label of the empty string is the empty string.
\<close>

theorem normalize_str_removed:
  "list_all (\<lambda>c. \<not> kept_char c) s \<Longrightarrow>
     normalize_str s = [] \<and> map_clean_label (normalize_str s) = []"
  by (simp add: normalize_str_steps spec_normalize_removed map_clean_label_def py_title_def
      cps_def)

theorem normalize_str_removed_witness:
  "list_all (\<lambda>c. \<not> kept_char c) [32, 46, 33, 233, 9, 8364] \<and>
   normalize_str [32, 46, 33, 233, 9, 8364] = [] \<and>
   map_clean_label (normalize_str [32, 46, 33, 233, 9, 8364]) = []"
proof -
  have h: "list_all (\<lambda>c. \<not> kept_char c) [32, 46, 33, 233, 9, 8364]"
    by (simp add: kept_char_def is_upper_az_def is_lower_az_def is_digit09_def)
  from h normalize_str_removed [OF h] show ?thesis by blast
qed

end
